theory Spec2Isabelle
  imports Complex_Main "HOL-Library.Char_ord" "HOL-Library.List_Lexorder"
begin

section \<open>Inventory-model pipeline (\<open>03_model_y.py\<close>)\<close>

subsection \<open>Largest inventory per language\<close>

text \<open>
  One row of the table returned by \<open>compute_inventory_flags\<close>: the two group keys and the
  four aggregated columns. The keys come out of a \<open>groupby\<close>, so they are never null; the
  counts are results of \<open>nunique\<close>, so they are natural numbers, and the two flags are
  \<open>int(bool)\<close>.
\<close>

record size_row =
  Glottocode :: string
  InventoryID :: int
  total_inventory_size :: nat
  vowel_inventory_size :: nat
  y_present :: nat
  i_present :: nat

text \<open>
  \<open>sizes.sort_values(by=['Glottocode', 'total_inventory_size', 'vowel_inventory_size'],
  ascending=[True, False, False])\<close>. With several sort columns pandas sorts through a
  lexicographic indexer, which is stable: rows equal on all three columns keep the order of
  the input. \<open>sort_before r s\<close> says that \<open>r\<close> comes strictly before \<open>s\<close> in the requested
  order (strings compare as Python compares them: lexicographically, character by character).
\<close>

definition sort_before :: "size_row \<Rightarrow> size_row \<Rightarrow> bool" where
  "sort_before r s \<longleftrightarrow>
     Glottocode r < Glottocode s \<or>
     (Glottocode r = Glottocode s \<and>
       (total_inventory_size s < total_inventory_size r \<or>
        (total_inventory_size s = total_inventory_size r \<and>
         vowel_inventory_size s < vowel_inventory_size r)))"

fun insert_row :: "size_row \<Rightarrow> size_row list \<Rightarrow> size_row list" where
  "insert_row r [] = [r]"
| "insert_row r (s # ss) = (if sort_before s r then s # insert_row r ss else r # s # ss)"

fun sort_values :: "size_row list \<Rightarrow> size_row list" where
  "sort_values [] = []"
| "sort_values (r # rs) = insert_row r (sort_values rs)"

text \<open>
  \<open>groupby('Glottocode').head(1)\<close>: the rows of the frame, in the frame's order, that are the
  first of their group. \<open>seen\<close> holds the group keys met so far. The closing
  \<open>reset_index(drop=True)\<close> only renumbers the index, which a list does not carry.
\<close>

fun groupby_head1 :: "string list \<Rightarrow> size_row list \<Rightarrow> size_row list" where
  "groupby_head1 seen [] = []"
| "groupby_head1 seen (r # rs) =
     (if Glottocode r \<in> set seen then groupby_head1 seen rs
      else r # groupby_head1 (Glottocode r # seen) rs)"

definition select_largest_inventory :: "size_row list \<Rightarrow> size_row list" where
  "select_largest_inventory sizes = groupby_head1 [] (sort_values sizes)"

text \<open>The key the sort compares: two rows with the same key are tied.\<close>

definition tie_key :: "size_row \<Rightarrow> string \<times> nat \<times> nat" where
  "tie_key r = (Glottocode r, total_inventory_size r, vowel_inventory_size r)"

text \<open>Two small tables: one language with two inventories beside a second language, and
  one language whose three inventories tie on the total count.\<close>

definition inv_row :: "string \<Rightarrow> int \<Rightarrow> nat \<Rightarrow> nat \<Rightarrow> size_row" where
  "inv_row g k t v = \<lparr>Glottocode = g, InventoryID = k, total_inventory_size = t,
     vowel_inventory_size = v, y_present = 0, i_present = 1\<rparr>"

definition example_sizes :: "size_row list" where
  "example_sizes = [inv_row ''stan1293'' 1 20 5, inv_row ''stan1293'' 2 25 8,
     inv_row ''aari1239'' 3 30 6]"

definition example_ties :: "size_row list" where
  "example_ties = [inv_row ''stan1293'' 1 20 5, inv_row ''stan1293'' 2 20 7,
     inv_row ''stan1293'' 3 20 7]"

subsubsection \<open>The sort\<close>

lemma set_insert_row: "set (insert_row r xs) = insert r (set xs)"
  by (induction xs) auto

lemma set_sort_values: "set (sort_values xs) = set xs"
  by (induction xs) (auto simp: set_insert_row)

lemma lex3_trans:
  fixes g1 g2 g3 :: "'a::order" and t1 t2 t3 v1 v2 v3 :: nat
  assumes "g1 < g2 \<or> (g1 = g2 \<and> (t2 < t1 \<or> (t2 = t1 \<and> v2 < v1)))"
    and "g2 < g3 \<or> (g2 = g3 \<and> (t3 < t2 \<or> (t3 = t2 \<and> v3 < v2)))"
  shows "g1 < g3 \<or> (g1 = g3 \<and> (t3 < t1 \<or> (t3 = t1 \<and> v3 < v1)))"
proof -
  consider "g1 < g3" | "g1 = g3" "g1 = g2" "g2 = g3"
    using assms by (meson order_less_trans)
  then show ?thesis
  proof cases
    case 1
    then show ?thesis by simp
  next
    case 2
    with assms have "t2 < t1 \<or> (t2 = t1 \<and> v2 < v1)" "t3 < t2 \<or> (t3 = t2 \<and> v3 < v2)"
      by simp_all
    then have "t3 < t1 \<or> (t3 = t1 \<and> v3 < v1)" by linarith
    with 2 show ?thesis by simp
  qed
qed

lemma lex3_total:
  fixes g1 g2 :: "'a::linorder" and t1 t2 v1 v2 :: nat
  assumes "\<not> (g1 < g2 \<or> (g1 = g2 \<and> (t2 < t1 \<or> (t2 = t1 \<and> v2 < v1))))"
    and "\<not> (g2 < g1 \<or> (g2 = g1 \<and> (t1 < t2 \<or> (t1 = t2 \<and> v1 < v2))))"
  shows "(g1, t1, v1) = (g2, t2, v2)"
proof -
  have "g1 = g2" using assms by (meson linorder_neqE)
  with assms have "\<not> t2 < t1" "\<not> t1 < t2" "\<not> v1 < v2" "\<not> v2 < v1"
    by auto
  with \<open>g1 = g2\<close> show ?thesis by simp
qed

lemma sort_before_trans: "sort_before a b \<Longrightarrow> sort_before b c \<Longrightarrow> sort_before a c"
  unfolding sort_before_def by (rule lex3_trans)

lemma sort_before_irrefl: "\<not> sort_before a a"
  unfolding sort_before_def by simp

lemma sort_before_asym: "sort_before a b \<Longrightarrow> \<not> sort_before b a"
  using sort_before_trans [of a b a] sort_before_irrefl by blast

lemma not_sort_before_tied:
  "\<not> sort_before a b \<Longrightarrow> \<not> sort_before b a \<Longrightarrow> tie_key a = tie_key b"
  unfolding sort_before_def tie_key_def by (rule lex3_total)

lemma sort_before_key_cong:
  "tie_key a = tie_key a' \<Longrightarrow> sort_before a b = sort_before a' b"
  "tie_key b = tie_key b' \<Longrightarrow> sort_before a b = sort_before a b'"
  unfolding sort_before_def tie_key_def by simp_all

lemma not_sort_before_trans:
  assumes "\<not> sort_before b a" "\<not> sort_before c b" shows "\<not> sort_before c a"
proof
  assume ca: "sort_before c a"
  show False
  proof (cases "sort_before a b")
    case True
    with ca have "sort_before c b" by (rule sort_before_trans)
    with assms show False by simp
  next
    case False
    from False assms(1) have "tie_key a = tie_key b" by (rule not_sort_before_tied)
    with ca have "sort_before c b" using sort_before_key_cong(2) by blast
    with assms show False by simp
  qed
qed

lemma sorted_insert_row:
  "sorted_wrt (\<lambda>a b. \<not> sort_before b a) xs \<Longrightarrow>
   sorted_wrt (\<lambda>a b. \<not> sort_before b a) (insert_row r xs)"
proof (induction xs)
  case Nil
  then show ?case by simp
next
  case (Cons s ss)
  from Cons.prems have tail: "sorted_wrt (\<lambda>a b. \<not> sort_before b a) ss"
    and hd: "\<And>t. t \<in> set ss \<Longrightarrow> \<not> sort_before t s" by simp_all
  show ?case
  proof (cases "sort_before s r")
    case True
    have "\<not> sort_before t s" if "t \<in> set (insert_row r ss)" for t
    proof -
      from that have "t = r \<or> t \<in> set ss" by (simp add: set_insert_row)
      then show ?thesis using hd True sort_before_asym by blast
    qed
    with Cons.IH [OF tail] True show ?thesis by simp
  next
    case False
    have "\<not> sort_before t r" if "t \<in> set ss" for t
      using False hd [OF that] by (rule not_sort_before_trans)
    with Cons.prems False show ?thesis by simp
  qed
qed

lemma sorted_sort_values: "sorted_wrt (\<lambda>a b. \<not> sort_before b a) (sort_values xs)"
  by (induction xs) (simp_all add: sorted_insert_row)
lemma filter_insert_row:
  assumes "\<And>s. P s \<Longrightarrow> P r \<Longrightarrow> \<not> sort_before s r"
  shows "filter P (insert_row r xs) = (if P r then r # filter P xs else filter P xs)"
  using assms by (induction xs) auto

lemma tied_not_before: "tie_key s = tie_key r \<Longrightarrow> \<not> sort_before s r"
  unfolding sort_before_def tie_key_def by simp

lemma filter_tied_sort_values:
  "filter (\<lambda>s. tie_key s = k) (sort_values xs) = filter (\<lambda>s. tie_key s = k) xs"
proof (induction xs)
  case Nil
  then show ?case by simp
next
  case (Cons r rs)
  have "\<And>s. tie_key s = k \<Longrightarrow> tie_key r = k \<Longrightarrow> \<not> sort_before s r"
    using tied_not_before by simp
  then show ?case using Cons by (simp add: filter_insert_row)
qed
lemma groupby_head1_keys:
  "Glottocode ` set (groupby_head1 seen ys) = Glottocode ` set ys - set seen"
  by (induction ys arbitrary: seen) auto

lemma groupby_head1_distinct: "distinct (map Glottocode (groupby_head1 seen ys))"
proof (induction ys arbitrary: seen)
  case Nil
  then show ?case by simp
next
  case (Cons r rs)
  have "Glottocode r \<notin> Glottocode ` set (groupby_head1 (Glottocode r # seen) rs)"
    by (simp add: groupby_head1_keys)
  with Cons show ?case by simp
qed

lemma groupby_head1_split:
  "r \<in> set (groupby_head1 seen ys) \<Longrightarrow>
   \<exists>pre post. ys = pre @ r # post \<and> Glottocode r \<notin> set seen \<and>
     Glottocode r \<notin> Glottocode ` set pre"
proof (induction ys arbitrary: seen)
  case Nil
  then show ?case by simp
next
  case (Cons y ys)
  show ?case
  proof (cases "Glottocode y \<in> set seen")
    case True
    with Cons.prems have "r \<in> set (groupby_head1 seen ys)" by simp
    from Cons.IH [OF this] obtain pre post where
      "ys = pre @ r # post" "Glottocode r \<notin> set seen" "Glottocode r \<notin> Glottocode ` set pre"
      by blast
    with True have "y # ys = (y # pre) @ r # post \<and> Glottocode r \<notin> set seen \<and>
        Glottocode r \<notin> Glottocode ` set (y # pre)" by auto
    then show ?thesis by blast
  next
    case False
    with Cons.prems have "r = y \<or> r \<in> set (groupby_head1 (Glottocode y # seen) ys)" by simp
    then show ?thesis
    proof
      assume "r = y"
      with False have "y # ys = [] @ r # ys \<and> Glottocode r \<notin> set seen \<and>
        Glottocode r \<notin> Glottocode ` set []" by simp
      then show ?thesis by blast
    next
      assume "r \<in> set (groupby_head1 (Glottocode y # seen) ys)"
      from Cons.IH [OF this] obtain pre post where
        "ys = pre @ r # post" "Glottocode r \<notin> set (Glottocode y # seen)"
        "Glottocode r \<notin> Glottocode ` set pre"
        by blast
      then have "y # ys = (y # pre) @ r # post \<and> Glottocode r \<notin> set seen \<and>
        Glottocode r \<notin> Glottocode ` set (y # pre)" by auto
      then show ?thesis by blast
    qed
  qed
qed

lemma groupby_head1_subset: "set (groupby_head1 seen ys) \<subseteq> set ys"
  by (induction ys arbitrary: seen) auto
lemma filter_Cons_find: "filter P xs = r # rest \<Longrightarrow> find P xs = Some r"
  by (induction xs) (auto split: if_splits)

lemma select_not_before:
  assumes r: "r \<in> set (select_largest_inventory sizes)"
    and s: "s \<in> set sizes" and g: "Glottocode s = Glottocode r"
  shows "\<not> sort_before s r"
proof -
  from r obtain pre post where
    split: "sort_values sizes = pre @ r # post" and pre: "Glottocode r \<notin> Glottocode ` set pre"
    unfolding select_largest_inventory_def using groupby_head1_split by blast
  have "sorted_wrt (\<lambda>a b. \<not> sort_before b a) (pre @ r # post)"
    using sorted_sort_values [of sizes] split by simp
  then have post: "\<And>t. t \<in> set post \<Longrightarrow> \<not> sort_before t r"
    by (simp add: sorted_wrt_append)
  from s have "s \<in> set (sort_values sizes)" by (simp add: set_sort_values)
  with split have "s \<in> set pre \<or> s = r \<or> s \<in> set post" by auto
  moreover from pre g have "s \<notin> set pre" by (metis imageI)
  ultimately have "s = r \<or> s \<in> set post" by blast
  then show ?thesis using post sort_before_irrefl by blast
qed

lemma select_first_tied:
  assumes r: "r \<in> set (select_largest_inventory sizes)"
  shows "find (\<lambda>s. tie_key s = tie_key r) sizes = Some r"
proof -
  let ?P = "\<lambda>s. tie_key s = tie_key r"
  from r obtain pre post where
    split: "sort_values sizes = pre @ r # post" and pre: "Glottocode r \<notin> Glottocode ` set pre"
    unfolding select_largest_inventory_def using groupby_head1_split by blast
  have "\<And>s. s \<in> set pre \<Longrightarrow> \<not> ?P s"
  proof
    fix s assume "s \<in> set pre" "?P s"
    then have "Glottocode s = Glottocode r" "s \<in> set pre" by (simp_all add: tie_key_def)
    with pre show False by (metis imageI)
  qed
  then have "filter ?P pre = []" by (simp add: filter_empty_conv)
  with split have "filter ?P (sort_values sizes) = r # filter ?P post" by simp
  then have "filter ?P sizes = r # filter ?P post"
    by (simp add: filter_tied_sort_values)
  then show ?thesis by (rule filter_Cons_find)
qed

text \<open>
  C1. For every input table, \<open>select_largest_inventory\<close> returns at most one row per
  Glottocode; every returned row is a row of the input, every language of the input is
  represented (and no other), and the returned row's \<open>total_inventory_size\<close> is at least that
  of every input row of the same language.
\<close>

theorem select_largest_inventory_one_max_row:
  "distinct (map Glottocode (select_largest_inventory sizes)) \<and>
   set (select_largest_inventory sizes) \<subseteq> set sizes \<and>
   Glottocode ` set (select_largest_inventory sizes) = Glottocode ` set sizes \<and>
   (\<forall>r \<in> set (select_largest_inventory sizes). \<forall>s \<in> set sizes.
      Glottocode s = Glottocode r \<longrightarrow> total_inventory_size s \<le> total_inventory_size r)"
proof (intro conjI ballI impI)
  show "distinct (map Glottocode (select_largest_inventory sizes))"
    unfolding select_largest_inventory_def by (rule groupby_head1_distinct)
  show "set (select_largest_inventory sizes) \<subseteq> set sizes"
    unfolding select_largest_inventory_def
    using groupby_head1_subset [of "[]" "sort_values sizes"] by (simp add: set_sort_values)
  show "Glottocode ` set (select_largest_inventory sizes) = Glottocode ` set sizes"
    unfolding select_largest_inventory_def by (simp add: groupby_head1_keys set_sort_values)
next
  fix r s
  assume "r \<in> set (select_largest_inventory sizes)" "s \<in> set sizes"
    and g: "Glottocode s = Glottocode r"
  then have "\<not> sort_before s r" by (rule select_not_before)
  with g show "total_inventory_size s \<le> total_inventory_size r"
    unfolding sort_before_def by (simp add: not_less)
qed

text \<open>
  C9. The selection is a function of the input table. Among the rows of a language that tie
  on the total count, the chosen row has the largest vowel count; among the rows that also
  tie on the vowel count, the chosen row is the first one in the order of the input.
\<close>

theorem select_largest_inventory_tie_break:
  "\<forall>r \<in> set (select_largest_inventory sizes).
     (\<forall>s \<in> set sizes. Glottocode s = Glottocode r \<and>
         total_inventory_size s = total_inventory_size r \<longrightarrow>
         vowel_inventory_size s \<le> vowel_inventory_size r) \<and>
     find (\<lambda>s. tie_key s = tie_key r) sizes = Some r"
proof (intro conjI ballI impI)
  fix r s
  assume "r \<in> set (select_largest_inventory sizes)" "s \<in> set sizes"
    and g: "Glottocode s = Glottocode r \<and> total_inventory_size s = total_inventory_size r"
  then have "\<not> sort_before s r" by (simp add: select_not_before)
  with g show "vowel_inventory_size s \<le> vowel_inventory_size r"
    unfolding sort_before_def by (simp add: not_less)
next
  fix r assume "r \<in> set (select_largest_inventory sizes)"
  then show "find (\<lambda>s. tie_key s = tie_key r) sizes = Some r"
    by (rule select_first_tied)
qed
lemma example_sizes_selected:
  "select_largest_inventory example_sizes = [inv_row ''aari1239'' 3 30 6, inv_row ''stan1293'' 2 25 8]"
  by (simp add: select_largest_inventory_def example_sizes_def inv_row_def sort_before_def)

lemma example_ties_selected:
  "select_largest_inventory example_ties = [inv_row ''stan1293'' 2 20 7]"
  by (simp add: select_largest_inventory_def example_ties_def inv_row_def sort_before_def)

theorem select_largest_inventory_one_max_row_witness:
  "select_largest_inventory example_sizes =
     [inv_row ''aari1239'' 3 30 6, inv_row ''stan1293'' 2 25 8] \<and>
   distinct (map Glottocode (select_largest_inventory example_sizes)) \<and>
   total_inventory_size (inv_row ''stan1293'' 1 20 5)
     \<le> total_inventory_size (inv_row ''stan1293'' 2 25 8)"
proof -
  have r: "inv_row ''stan1293'' 2 25 8 \<in> set (select_largest_inventory example_sizes)"
    by (simp add: example_sizes_selected)
  have s: "inv_row ''stan1293'' 1 20 5 \<in> set example_sizes"
    by (simp add: example_sizes_def)
  have g: "Glottocode (inv_row ''stan1293'' 1 20 5) = Glottocode (inv_row ''stan1293'' 2 25 8)"
    by (simp add: inv_row_def)
  from select_largest_inventory_one_max_row [of example_sizes] r s g
  show ?thesis by (simp add: example_sizes_selected)
qed

theorem select_largest_inventory_tie_break_witness:
  "select_largest_inventory example_ties = [inv_row ''stan1293'' 2 20 7] \<and>
   vowel_inventory_size (inv_row ''stan1293'' 1 20 5)
     \<le> vowel_inventory_size (inv_row ''stan1293'' 2 20 7) \<and>
   find (\<lambda>s. tie_key s = tie_key (inv_row ''stan1293'' 2 20 7)) example_ties
     = Some (inv_row ''stan1293'' 2 20 7)"
proof -
  have r: "inv_row ''stan1293'' 2 20 7 \<in> set (select_largest_inventory example_ties)"
    by (simp add: example_ties_selected)
  have s: "inv_row ''stan1293'' 1 20 5 \<in> set example_ties"
    by (simp add: example_ties_def)
  have g: "Glottocode (inv_row ''stan1293'' 1 20 5) = Glottocode (inv_row ''stan1293'' 2 20 7) \<and>
      total_inventory_size (inv_row ''stan1293'' 1 20 5)
        = total_inventory_size (inv_row ''stan1293'' 2 20 7)"
    by (simp add: inv_row_def)
  from select_largest_inventory_tie_break [of example_ties] r
  have "(\<forall>s \<in> set example_ties. Glottocode s = Glottocode (inv_row ''stan1293'' 2 20 7) \<and>
         total_inventory_size s = total_inventory_size (inv_row ''stan1293'' 2 20 7) \<longrightarrow>
         vowel_inventory_size s \<le> vowel_inventory_size (inv_row ''stan1293'' 2 20 7)) \<and>
     find (\<lambda>s. tie_key s = tie_key (inv_row ''stan1293'' 2 20 7)) example_ties
       = Some (inv_row ''stan1293'' 2 20 7)"
    by blast
  with s g show ?thesis by (simp add: example_ties_selected)
qed

subsection \<open>Phoneme normalisation\<close>

text \<open>
  A Python \<open>str\<close> is a sequence of Unicode code points, so it is modelled as a list of
  natural numbers (an Isabelle \<open>char\<close> is a byte and cannot hold U+02D0).
\<close>

type_synonym ustring = "nat list"

text \<open>
  The character class of the \<open>re.sub\<close> call: length marks U+02D0, U+02D1, stress marks
  U+02C8, U+02CC, and the combining grave, acute, circumflex, tilde, macron, breve and
  diaeresis.
\<close>

definition stripped_marks :: "nat list" where
  "stripped_marks = [0x02D0, 0x02D1, 0x02C8, 0x02CC,
     0x0300, 0x0301, 0x0302, 0x0303, 0x0304, 0x0306, 0x0308]"

definition re_sub_marks :: "ustring \<Rightarrow> ustring" where
  "re_sub_marks s = filter (\<lambda>c. c \<notin> set stripped_marks) s"

text \<open>
  \<open>str.strip()\<close> with no argument removes leading and trailing whitespace, that is the
  code points for which \<open>str.isspace\<close> holds.
\<close>

definition py_isspace :: "nat \<Rightarrow> bool" where
  "py_isspace c \<longleftrightarrow> (0x09 \<le> c \<and> c \<le> 0x0D) \<or> (0x1C \<le> c \<and> c \<le> 0x20) \<or> c = 0x85 \<or>
     c = 0xA0 \<or> c = 0x1680 \<or> (0x2000 \<le> c \<and> c \<le> 0x200A) \<or> c = 0x2028 \<or> c = 0x2029 \<or>
     c = 0x202F \<or> c = 0x205F \<or> c = 0x3000"

definition py_lstrip :: "ustring \<Rightarrow> ustring" where
  "py_lstrip s = dropWhile py_isspace s"

definition py_rstrip :: "ustring \<Rightarrow> ustring" where
  "py_rstrip s = rev (dropWhile py_isspace (rev s))"

definition py_strip :: "ustring \<Rightarrow> ustring" where
  "py_strip s = py_rstrip (py_lstrip s)"

text \<open>
  \<open>normalize_phoneme_strip_marks\<close>. The argument is \<open>None\<close> where \<open>pd.isnull(s)\<close> holds
  (a missing cell) and \<open>Some t\<close> for a string \<open>t\<close>. \<open>unicodedata.normalize('NFKC', _)\<close> is
  a function of the Python standard library, driven by the Unicode character database; it is
  the parameter \<open>nfkc\<close>.
\<close>

definition normalize_phoneme_strip_marks :: "(ustring \<Rightarrow> ustring) \<Rightarrow> ustring option \<Rightarrow> ustring" where
  "normalize_phoneme_strip_marks nfkc s =
     (case s of None \<Rightarrow> [] | Some t \<Rightarrow> py_strip (re_sub_marks (nfkc t)))"

text \<open>
  NFKC on the strings over the five code points U+0061 (a), U+00E5 (a with ring above),
  U+02D0 (length mark), U+030A (combining ring above) and U+0020 (space): none of them has
  a decomposition, the ring is the only combining mark, and the only canonical composition
  among them is of U+0061 followed directly by U+030A, which gives U+00E5.
\<close>

fun nfkc_sample :: "ustring \<Rightarrow> ustring" where
  "nfkc_sample (a # b # cs) =
     (if a = 0x61 \<and> b = 0x30A then 0xE5 # nfkc_sample cs else a # nfkc_sample (b # cs))"
| "nfkc_sample cs = cs"

lemma re_sub_marks_idem: "re_sub_marks (re_sub_marks s) = re_sub_marks s"
  by (simp add: re_sub_marks_def)

lemma set_py_strip: "set (py_strip s) \<subseteq> set s"
proof -
  have "set (py_rstrip t) \<subseteq> set t" for t
    unfolding py_rstrip_def using set_dropWhileD [of _ py_isspace "rev t"] by auto
  moreover have "set (py_lstrip s) \<subseteq> set s"
    unfolding py_lstrip_def using set_dropWhileD [of _ py_isspace s] by auto
  ultimately show ?thesis unfolding py_strip_def by blast
qed

lemma re_sub_marks_py_strip:
  "re_sub_marks (py_strip (re_sub_marks s)) = py_strip (re_sub_marks s)"
proof -
  have "\<forall>c \<in> set (py_strip (re_sub_marks s)). c \<notin> set stripped_marks"
    using set_py_strip [of "re_sub_marks s"] by (auto simp: re_sub_marks_def)
  then show ?thesis unfolding re_sub_marks_def [of "py_strip _"] by (simp add: filter_id_conv)
qed
lemma py_rstrip_take: "\<exists>k. py_rstrip w = take k w"
proof -
  obtain n where "dropWhile py_isspace (rev w) = drop n (rev w)"
    by (metis dropWhile_eq_drop)
  then have "py_rstrip w = take (length w - n) w"
    unfolding py_rstrip_def by (simp add: rev_drop)
  then show ?thesis by blast
qed

lemma py_lstrip_head: "py_lstrip s = [] \<or> \<not> py_isspace (hd (py_lstrip s))"
  unfolding py_lstrip_def by (metis hd_dropWhile)

lemma py_strip_head: "py_strip s = [] \<or> \<not> py_isspace (hd (py_strip s))"
proof -
  obtain k where k: "py_strip s = take k (py_lstrip s)"
    unfolding py_strip_def using py_rstrip_take by blast
  show ?thesis
  proof (cases "py_strip s = []")
    case True
    then show ?thesis by simp
  next
    case False
    with k have "0 < k" "py_lstrip s \<noteq> []" by (auto intro: Suc_lessI gr0I)
    then have "hd (py_strip s) = hd (py_lstrip s)" using k by (simp add: hd_take)
    with py_lstrip_head [of s] \<open>py_lstrip s \<noteq> []\<close> show ?thesis by simp
  qed
qed

lemma py_rstrip_idem: "py_rstrip (py_rstrip w) = py_rstrip w"
  by (simp add: py_rstrip_def)

lemma py_strip_idem: "py_strip (py_strip s) = py_strip s"
proof -
  have "py_lstrip (py_strip s) = py_strip s"
    unfolding py_lstrip_def [of "py_strip s"] using py_strip_head [of s]
    by (simp add: dropWhile_eq_self_iff)
  then have "py_strip (py_strip s) = py_rstrip (py_strip s)"
    by (simp add: py_strip_def [of "py_strip s"])
  also have "\<dots> = py_strip s" by (simp add: py_strip_def py_rstrip_idem)
  finally show ?thesis .
qed

lemma normalize_sample_length_ring:
  "normalize_phoneme_strip_marks nfkc_sample (Some [0x61, 0x2D0, 0x30A]) = [0x61, 0x30A]"
  by (simp add: normalize_phoneme_strip_marks_def re_sub_marks_def stripped_marks_def
      py_strip_def py_lstrip_def py_rstrip_def py_isspace_def)

lemma normalize_sample_ring:
  "normalize_phoneme_strip_marks nfkc_sample (Some [0x61, 0x30A]) = [0xE5]"
  by (simp add: normalize_phoneme_strip_marks_def re_sub_marks_def stripped_marks_def
      py_strip_def py_lstrip_def py_rstrip_def py_isspace_def)

lemma normalize_sample_padded:
  "normalize_phoneme_strip_marks nfkc_sample (Some [0x20, 0x61, 0x2D0, 0x20]) = [0x61]"
  by (simp add: normalize_phoneme_strip_marks_def re_sub_marks_def stripped_marks_def
      py_strip_def py_lstrip_def py_rstrip_def py_isspace_def)

text \<open>
  C2, as stated, fails. The string a, U+02D0, U+030A is in NFKC (the length mark stands
  between the letter and the ring). Removing the length mark leaves a followed by the
  combining ring, which is not in NFKC: the second application composes the pair to U+00E5.
\<close>

theorem normalize_phoneme_strip_marks_not_idempotent:
  "normalize_phoneme_strip_marks nfkc_sample
     (Some (normalize_phoneme_strip_marks nfkc_sample (Some [0x61, 0x2D0, 0x30A])))
   \<noteq> normalize_phoneme_strip_marks nfkc_sample (Some [0x61, 0x2D0, 0x30A])"
  by (simp add: normalize_sample_length_ring normalize_sample_ring)

text \<open>
  C2, amended. Whatever function \<open>nfkc\<close> is, and whatever the input (a string or a missing
  value): when the output of \<open>normalize_phoneme_strip_marks\<close> is itself unchanged by \<open>nfkc\<close>,
  applying \<open>normalize_phoneme_strip_marks\<close> to that output returns it unchanged. The removal
  of the marks and the trimming never undo each other; only the NFKC step can change an
  output.
\<close>

theorem normalize_phoneme_strip_marks_idempotent_on_stable:
  assumes "nfkc (normalize_phoneme_strip_marks nfkc s) = normalize_phoneme_strip_marks nfkc s"
  shows "normalize_phoneme_strip_marks nfkc (Some (normalize_phoneme_strip_marks nfkc s))
     = normalize_phoneme_strip_marks nfkc s"
proof -
  let ?out = "normalize_phoneme_strip_marks nfkc s"
  have fix_sub: "re_sub_marks ?out = ?out"
  proof (cases s)
    case None
    then show ?thesis by (simp add: normalize_phoneme_strip_marks_def re_sub_marks_def)
  next
    case (Some t)
    then show ?thesis by (simp add: normalize_phoneme_strip_marks_def re_sub_marks_py_strip)
  qed
  have fix_strip: "py_strip ?out = ?out"
  proof (cases s)
    case None
    then show ?thesis
      by (simp add: normalize_phoneme_strip_marks_def py_strip_def py_lstrip_def py_rstrip_def)
  next
    case (Some t)
    then show ?thesis by (simp add: normalize_phoneme_strip_marks_def py_strip_idem)
  qed
  have "normalize_phoneme_strip_marks nfkc (Some ?out) = py_strip (re_sub_marks (nfkc ?out))"
    by (simp add: normalize_phoneme_strip_marks_def)
  also have "\<dots> = py_strip (re_sub_marks ?out)" using assms by simp
  also have "\<dots> = ?out" using fix_sub fix_strip by simp
  finally show ?thesis .
qed

theorem normalize_phoneme_strip_marks_idempotent_on_stable_witness:
  "normalize_phoneme_strip_marks nfkc_sample (Some [0x20, 0x61, 0x2D0, 0x20]) = [0x61] \<and>
   nfkc_sample [0x61] = [0x61] \<and>
   normalize_phoneme_strip_marks nfkc_sample (Some [0x61]) = [0x61]"
  using normalize_phoneme_strip_marks_idempotent_on_stable
    [of nfkc_sample "Some [0x20, 0x61, 0x2D0, 0x20]"]
  by (simp add: normalize_sample_padded)

subsection \<open>Cross-validated AUC\<close>

text \<open>
  Exceptions are values. \<open>ValueError\<close> is what \<open>LogisticRegression.fit\<close> raises on a
  training response with a single class; \<open>IndexError\<close> is what indexing beyond an array
  raises, and what \<open>np.percentile\<close> raises on an array with no entries.
\<close>

datatype py_error = ValueError | IndexError

text \<open>A Python \<open>float\<close> result: a number, read as a real, or \<open>float('nan')\<close>.\<close>

datatype py_float = Finite real | NaN

text \<open>
  The response column \<open>y_present\<close> holds \<open>int(bool)\<close> flags, so it is a list of booleans.
  \<open>len(np.unique(y)) < 2\<close> is \<open>\<not> both_classes y\<close>.
\<close>

definition both_classes :: "bool list \<Rightarrow> bool" where
  "both_classes ys \<longleftrightarrow> True \<in> set ys \<and> False \<in> set ys"

text \<open>\<open>y[idx]\<close> for an index array \<open>idx\<close>: an index beyond the array raises.\<close>

definition take_rows :: "'a list \<Rightarrow> nat list \<Rightarrow> py_error + 'a list" where
  "take_rows ys idx =
     (if list_all (\<lambda>i. i < length ys) idx then Inr (map (\<lambda>i. ys ! i) idx) else Inl IndexError)"

text \<open>
  \<open>roc_auc_score\<close> for a binary response in which both classes occur: the area under the
  ROC curve by the trapezoidal rule, which is the share of (positive, negative) pairs that
  the scores rank correctly, a tied pair counting one half.
\<close>

definition pair_score :: "real \<Rightarrow> real \<Rightarrow> real" where
  "pair_score p q = (if q < p then 1 else if p = q then 1 / 2 else 0)"

definition roc_auc_score :: "bool list \<Rightarrow> real list \<Rightarrow> real" where
  "roc_auc_score y_true y_score =
     (let pos = map snd (filter fst (zip y_true y_score));
          neg = map snd (filter (\<lambda>r. \<not> fst r) (zip y_true y_score))
      in (\<Sum>p\<leftarrow>pos. \<Sum>q\<leftarrow>neg. pair_score p q) / (real (length pos) * real (length neg)))"

text \<open>
  The loop of \<open>cross_validated_auc\<close> over the folds that \<open>skf.split(X, y)\<close> yields, each a
  pair of index arrays (train, test). \<open>predict train_idx i\<close> stands for the two library
  calls \<open>lr.fit(X_train, y_train)\<close> and \<open>lr.predict_proba(X_test)[:, 1]\<close>: the probability
  that the model fitted on the rows \<open>train_idx\<close> gives to row \<open>i\<close>. The fit comes first in
  the loop body and raises when the training response has a single class; the test on
  \<open>y_test\<close> comes after it.
\<close>

fun cv_loop ::
  "(nat list \<Rightarrow> nat \<Rightarrow> real) \<Rightarrow> bool list \<Rightarrow> (nat list \<times> nat list) list \<Rightarrow> real list
    \<Rightarrow> py_error + real list" where
  "cv_loop predict y [] aucs = Inr aucs"
| "cv_loop predict y ((train_idx, test_idx) # folds) aucs =
     (case take_rows y train_idx of Inl e \<Rightarrow> Inl e | Inr y_train \<Rightarrow>
      (case take_rows y test_idx of Inl e \<Rightarrow> Inl e | Inr y_test \<Rightarrow>
       if \<not> both_classes y_train then Inl ValueError
       else let probs = map (predict train_idx) test_idx in
         if \<not> both_classes y_test then cv_loop predict y folds aucs
         else cv_loop predict y folds (aucs @ [roc_auc_score y_test probs])))"

definition cross_validated_auc ::
  "(nat list \<Rightarrow> nat \<Rightarrow> real) \<Rightarrow> (nat list \<times> nat list) list \<Rightarrow> bool list
    \<Rightarrow> py_error + py_float" where
  "cross_validated_auc predict folds y =
     (case cv_loop predict y folds [] of
        Inl e \<Rightarrow> Inl e
      | Inr aucs \<Rightarrow> Inr (if aucs \<noteq> [] then Finite (sum_list aucs / real (length aucs)) else NaN))"

text \<open>
  Ten rows, none with /y/, and the ten folds of one test row each that a ten-fold split of
  ten rows of one class consists of.
\<close>

definition no_y_rows :: "bool list" where
  "no_y_rows = replicate 10 False"

definition one_row_folds :: "nat \<Rightarrow> (nat list \<times> nat list) list" where
  "one_row_folds n = map (\<lambda>k. (filter (\<lambda>i. i \<noteq> k) [0..<n], [k])) [0..<n]"

text \<open>A fold is usable when its indices are rows of the data and its training part has both
  classes; its test part has both classes or not.\<close>

definition fold_usable :: "bool list \<Rightarrow> nat list \<times> nat list \<Rightarrow> bool" where
  "fold_usable y fd \<longleftrightarrow>
     list_all (\<lambda>i. i < length y) (fst fd) \<and> list_all (\<lambda>i. i < length y) (snd fd) \<and>
     both_classes (map (\<lambda>i. y ! i) (fst fd))"

definition test_both_classes :: "bool list \<Rightarrow> nat list \<times> nat list \<Rightarrow> bool" where
  "test_both_classes y fd \<longleftrightarrow> both_classes (map (\<lambda>i. y ! i) (snd fd))"

definition fold_auc :: "(nat list \<Rightarrow> nat \<Rightarrow> real) \<Rightarrow> bool list \<Rightarrow> nat list \<times> nat list \<Rightarrow> real" where
  "fold_auc predict y fd =
     roc_auc_score (map (\<lambda>i. y ! i) (snd fd)) (map (predict (fst fd)) (snd fd))"

lemma sum_list_between:
  fixes f :: "'a \<Rightarrow> real"
  assumes "\<And>x. x \<in> set xs \<Longrightarrow> lo \<le> f x \<and> f x \<le> hi"
  shows "lo * real (length xs) \<le> (\<Sum>x\<leftarrow>xs. f x) \<and> (\<Sum>x\<leftarrow>xs. f x) \<le> hi * real (length xs)"
  using assms
proof (induction xs)
  case Nil
  then show ?case by simp
next
  case (Cons a xs)
  then have "lo \<le> f a" "f a \<le> hi"
    and "lo * real (length xs) \<le> (\<Sum>x\<leftarrow>xs. f x)" "(\<Sum>x\<leftarrow>xs. f x) \<le> hi * real (length xs)"
    by simp_all
  then show ?case by (simp add: algebra_simps)
qed

lemma pair_score_bounds: "0 \<le> pair_score p q \<and> pair_score p q \<le> 1"
  by (simp add: pair_score_def)

lemma roc_auc_score_bounds: "0 \<le> roc_auc_score ys ps \<and> roc_auc_score ys ps \<le> 1"
proof -
  define pos where "pos = map snd (filter fst (zip ys ps))"
  define neg where "neg = map snd (filter (\<lambda>r. \<not> fst r) (zip ys ps))"
  define total where "total = (\<Sum>p\<leftarrow>pos. \<Sum>q\<leftarrow>neg. pair_score p q)"
  have inner: "0 \<le> (\<Sum>q\<leftarrow>neg. pair_score p q) \<and> (\<Sum>q\<leftarrow>neg. pair_score p q) \<le> real (length neg)"
    for p
    using sum_list_between [of neg 0 "pair_score p" 1] pair_score_bounds by simp
  then have outer: "0 \<le> total \<and> total \<le> real (length neg) * real (length pos)"
    unfolding total_def
    using sum_list_between [of pos 0 "\<lambda>p. \<Sum>q\<leftarrow>neg. pair_score p q" "real (length neg)"]
    by simp
  have eq: "roc_auc_score ys ps = total / (real (length pos) * real (length neg))"
    by (simp add: roc_auc_score_def pos_def neg_def total_def Let_def)
  show ?thesis
  proof (cases "real (length pos) * real (length neg) = 0")
    case True
    then have "roc_auc_score ys ps = 0" unfolding eq by (simp only: div_by_0)
    then show ?thesis by simp
  next
    case False
    then have "0 < real (length pos) * real (length neg)" by simp
    with outer show ?thesis unfolding eq by (simp add: mult.commute)
  qed
qed

lemma cv_loop_usable:
  "list_all (fold_usable y) folds \<Longrightarrow>
   cv_loop predict y folds aucs =
     Inr (aucs @ map (fold_auc predict y) (filter (test_both_classes y) folds))"
proof (induction folds arbitrary: aucs)
  case Nil
  then show ?case by simp
next
  case (Cons fd folds)
  obtain tr te where fd: "fd = (tr, te)" by (cases fd)
  from Cons.prems have ok: "fold_usable y (tr, te)" and rest: "list_all (fold_usable y) folds"
    by (simp_all add: fd)
  from ok have rows: "take_rows y tr = Inr (map (\<lambda>i. y ! i) tr)"
      "take_rows y te = Inr (map (\<lambda>i. y ! i) te)"
    and train: "both_classes (map (\<lambda>i. y ! i) tr)"
    by (simp_all add: fold_usable_def take_rows_def)
  show ?case
    by (simp add: fd rows train Cons.IH [OF rest] test_both_classes_def fold_auc_def)
qed

lemma cv_loop_single_class_train:
  assumes "\<not> both_classes y" "folds \<noteq> []"
  shows "\<exists>e. cv_loop predict y folds aucs = Inl e"
proof -
  from assms(2) obtain tr te rest where folds: "folds = (tr, te) # rest"
    by (cases folds) auto
  have sub: "\<not> both_classes (map (\<lambda>i. y ! i) tr)" if "list_all (\<lambda>i. i < length y) tr"
  proof -
    from that have "set (map (\<lambda>i. y ! i) tr) \<subseteq> set y"
      by (auto simp: list_all_iff)
    with assms(1) show ?thesis unfolding both_classes_def by blast
  qed
  show ?thesis
  proof (cases "take_rows y tr")
    case (Inl e)
    then show ?thesis by (simp add: folds)
  next
    case (Inr y_train)
    then have tr: "list_all (\<lambda>i. i < length y) tr" "y_train = map (\<lambda>i. y ! i) tr"
      by (auto simp: take_rows_def split: if_splits)
    show ?thesis
    proof (cases "take_rows y te")
      case (Inl e)
      then show ?thesis by (simp add: folds Inr)
    next
      case te: (Inr y_test)
      with Inr tr sub show ?thesis by (simp add: folds)
    qed
  qed
qed

lemma cv_loop_first_fold_raises:
  assumes "\<not> both_classes y" "list_all (\<lambda>i. i < length y) tr" "list_all (\<lambda>i. i < length y) te"
  shows "cv_loop predict y ((tr, te) # rest) aucs = Inl ValueError"
proof -
  from assms(2) have "set (map (\<lambda>i. y ! i) tr) \<subseteq> set y"
    by (auto simp: list_all_iff)
  with assms(1) have "\<not> both_classes (map (\<lambda>i. y ! i) tr)"
    unfolding both_classes_def by blast
  with assms(2,3) show ?thesis by (simp add: take_rows_def)
qed

lemma one_row_folds_Cons:
  "0 < n \<Longrightarrow> one_row_folds n =
     (filter (\<lambda>i. i \<noteq> 0) [0..<n], [0]) #
       map (\<lambda>k. (filter (\<lambda>i. i \<noteq> k) [0..<n], [k])) [Suc 0..<n]"
  by (simp add: one_row_folds_def upt_conv_Cons)

lemma mean_between:
  fixes xs :: "real list"
  assumes "xs \<noteq> []" "\<And>x. x \<in> set xs \<Longrightarrow> lo \<le> x \<and> x \<le> hi"
  shows "lo \<le> sum_list xs / real (length xs) \<and> sum_list xs / real (length xs) \<le> hi"
proof -
  have pos: "0 < real (length xs)" using assms(1) by simp
  from sum_list_between [of xs lo "\<lambda>x. x" hi] assms(2)
  have "lo * real (length xs) \<le> sum_list xs" "sum_list xs \<le> hi * real (length xs)"
    by simp_all
  with pos show ?thesis by (simp add: pos_le_divide_eq pos_divide_le_eq)
qed

text \<open>
  What \<open>cross_validated_auc\<close> does when every fold can be fitted (its indices are rows and
  its training response has both classes): folds whose test response has a single class are
  skipped, the result is the mean of the AUCs of the other folds, a number between 0 and 1,
  and it is NaN exactly when no fold has both classes in its test response.
\<close>

lemma cross_validated_auc_usable_folds:
  assumes "list_all (fold_usable y) folds"
  shows "cross_validated_auc predict folds y =
      Inr (if filter (test_both_classes y) folds = [] then NaN
           else Finite (sum_list (map (fold_auc predict y) (filter (test_both_classes y) folds))
             / real (length (filter (test_both_classes y) folds))))"
    and "cross_validated_auc predict folds y = Inr (Finite v) \<Longrightarrow> 0 \<le> v \<and> v \<le> 1"
proof -
  let ?used = "filter (test_both_classes y) folds"
  show eq: "cross_validated_auc predict folds y =
      Inr (if ?used = [] then NaN
           else Finite (sum_list (map (fold_auc predict y) ?used) / real (length ?used)))"
    by (simp add: cross_validated_auc_def cv_loop_usable [OF assms])
  assume "cross_validated_auc predict folds y = Inr (Finite v)"
  with eq have used: "?used \<noteq> []"
    and v: "v = sum_list (map (fold_auc predict y) ?used) / real (length (map (fold_auc predict y) ?used))"
    by (auto split: if_splits)
  have "map (fold_auc predict y) ?used \<noteq> []" using used by simp
  moreover have "0 \<le> x \<and> x \<le> 1" if "x \<in> set (map (fold_auc predict y) ?used)" for x
    using that roc_auc_score_bounds by (auto simp: fold_auc_def)
  ultimately show "0 \<le> v \<and> v \<le> 1" unfolding v by (rule mean_between)
qed

text \<open>
  When the response has a single class, the first fold already raises: the training
  response of every fold has a single class, and the fit comes before the test on \<open>y_test\<close>.
\<close>

lemma cross_validated_auc_single_class:
  assumes "\<not> both_classes y" "folds \<noteq> []"
  shows "\<exists>e. cross_validated_auc predict folds y = Inl e"
proof -
  from cv_loop_single_class_train [OF assms] obtain e where "cv_loop predict y folds [] = Inl e"
    by blast
  then show ?thesis by (simp add: cross_validated_auc_def)
qed

text \<open>
  C3. On ten rows none of which has /y/, split into ten folds of one test row each, no fold
  has both classes in its test response, so the claim asks for NaN. The function raises
  \<open>ValueError\<close> instead, whatever the fitted models would predict.
\<close>

theorem cross_validated_auc_no_y_raises:
  "cross_validated_auc predict (one_row_folds 10) no_y_rows = Inl ValueError"
proof -
  have single: "\<not> both_classes no_y_rows" by (simp add: both_classes_def no_y_rows_def)
  have train: "list_all (\<lambda>i. i < length no_y_rows) (filter (\<lambda>i. i \<noteq> 0) [0..<10])"
    by (simp add: list_all_iff no_y_rows_def)
  have test: "list_all (\<lambda>i. i < length no_y_rows) [0]"
    by (simp add: no_y_rows_def)
  have folds: "one_row_folds 10 =
     (filter (\<lambda>i. i \<noteq> 0) [0..<10], [0]) #
       map (\<lambda>k. (filter (\<lambda>i. i \<noteq> k) [0..<10], [k])) [Suc 0..<10]"
    by (rule one_row_folds_Cons) simp
  have "cv_loop predict no_y_rows (one_row_folds 10) [] = Inl ValueError"
    unfolding folds using single train test by (rule cv_loop_first_fold_raises)
  then show ?thesis by (simp add: cross_validated_auc_def)
qed

subsection \<open>Bootstrap prediction band\<close>

text \<open>
  The values of the band are 64-bit floats in the program and reals here: \<open>np_mean\<close> and
  \<open>percentile_linear\<close> are the exact mean and the exact interpolated percentile, which the
  program's results approximate up to rounding. Nothing below depends on their values; what
  is proved is on which inputs the function raises before it computes them.
\<close>

text \<open>\<open>arr.mean()\<close> of a one-dimensional array with at least one entry.\<close>

definition np_mean :: "real list \<Rightarrow> real" where
  "np_mean xs = sum_list xs / real (length xs)"

text \<open>
  \<open>np.percentile(xs, q)\<close> of a one-dimensional array with at least one entry, by the
  default method (linear interpolation): the sorted values are read at the virtual index
  \<open>(n - 1) * q / 100\<close>, interpolating between its two neighbours.
\<close>

definition percentile_linear :: "real \<Rightarrow> real list \<Rightarrow> real" where
  "percentile_linear q xs =
     (let s = sort xs; n = length xs;
          h = (real n - 1) * q / 100;
          lo = nat \<lfloor>h\<rfloor>;
          hi = min (lo + 1) (n - 1);
          g = h - real lo
      in s ! lo + (s ! hi - s ! lo) * g)"

text \<open>Column \<open>i\<close> of a two-dimensional array given as the list of its rows.\<close>

definition column :: "nat \<Rightarrow> real list list \<Rightarrow> real list" where
  "column i arr = map (\<lambda>row. row ! i) arr"

text \<open>
  The bootstrap loop. \<open>resamples\<close> are the index arrays that \<open>rng.integers(0, len(data),
  len(data))\<close> returns, one per iteration; \<open>m\<close> is the length of the prediction grid
  \<open>vowel_range\<close>; \<open>predict idx i\<close> stands for \<open>lr.fit(X_boot, y_boot)\<close> followed by
  \<open>lr.predict_proba(X_new)[:, 1]\<close>: the probability that the model fitted on the resample
  \<open>idx\<close> gives to grid point \<open>i\<close>. Here the test on the classes comes before the fit.
\<close>

fun boot_loop ::
  "(nat list \<Rightarrow> nat \<Rightarrow> real) \<Rightarrow> bool list \<Rightarrow> nat \<Rightarrow> nat list list \<Rightarrow> real list list
    \<Rightarrow> py_error + real list list" where
  "boot_loop predict y_full m [] preds_list = Inr preds_list"
| "boot_loop predict y_full m (idx # resamples) preds_list =
     (case take_rows y_full idx of Inl e \<Rightarrow> Inl e | Inr y_boot \<Rightarrow>
      if \<not> both_classes y_boot then boot_loop predict y_full m resamples preds_list
      else boot_loop predict y_full m resamples (preds_list @ [map (predict idx) [0..<m]]))"

text \<open>
  \<open>bootstrap_prediction_intervals\<close>. With no collected curve \<open>np.array(preds_list)\<close> is an
  array with no entries: its \<open>mean(axis=0)\<close> is NaN with a warning, and \<open>np.percentile\<close>
  raises on it. Otherwise the three results are computed column by column.
\<close>

definition bootstrap_prediction_intervals ::
  "(nat list \<Rightarrow> nat \<Rightarrow> real) \<Rightarrow> bool list \<Rightarrow> nat \<Rightarrow> nat list list
    \<Rightarrow> py_error + (real list \<times> real list \<times> real list)" where
  "bootstrap_prediction_intervals predict y_full m resamples =
     (case boot_loop predict y_full m resamples [] of
        Inl e \<Rightarrow> Inl e
      | Inr preds_arr \<Rightarrow>
          if preds_arr = [] then Inl IndexError
          else Inr (map (\<lambda>i. np_mean (column i preds_arr)) [0..<m],
                    map (\<lambda>i. percentile_linear 2.5 (column i preds_arr)) [0..<m],
                    map (\<lambda>i. percentile_linear 97.5 (column i preds_arr)) [0..<m]))"

text \<open>
  A fit for examples: the predicted probability is the share of rows with /y/ in the
  resample, at every grid point (the maximum-likelihood fit of a model with an intercept
  only).
\<close>

definition share_fit :: "bool list \<Rightarrow> nat list \<Rightarrow> nat \<Rightarrow> real" where
  "share_fit y idx i = real (length (filter (\<lambda>j. y ! j) idx)) / real (length idx)"

lemma boot_loop_valid:
  assumes "\<And>idx. idx \<in> set resamples \<Longrightarrow> list_all (\<lambda>i. i < length y) idx"
  shows "boot_loop predict y m resamples acc =
     Inr (acc @ map (\<lambda>idx. map (predict idx) [0..<m])
        (filter (\<lambda>idx. both_classes (map (\<lambda>i. y ! i) idx)) resamples))"
  using assms
proof (induction resamples arbitrary: acc)
  case Nil
  then show ?case by simp
next
  case (Cons idx resamples)
  then have "list_all (\<lambda>i. i < length y) idx" by simp
  then have rows: "take_rows y idx = Inr (map (\<lambda>i. y ! i) idx)" by (simp add: take_rows_def)
  have IH: "boot_loop predict y m resamples acc' =
     Inr (acc' @ map (\<lambda>idx. map (predict idx) [0..<m])
        (filter (\<lambda>idx. both_classes (map (\<lambda>i. y ! i) idx)) resamples))" for acc'
    using Cons by simp
  show ?case by (simp add: rows IH)
qed

lemma single_class_resample:
  assumes "\<not> both_classes y" "list_all (\<lambda>i. i < length y) idx"
  shows "\<not> both_classes (map (\<lambda>i. y ! i) idx)"
proof -
  from assms(2) have "set (map (\<lambda>i. y ! i) idx) \<subseteq> set y" by (auto simp: list_all_iff)
  with assms(1) show ?thesis unfolding both_classes_def by blast
qed

text \<open>
  C10. When the response has a single class (and the index arrays are what
  \<open>rng.integers(0, len(data), len(data))\<close> returns: indices of rows), every resample is
  skipped, no curve is collected, and the function raises at the percentiles instead of
  returning a band.
\<close>

theorem bootstrap_prediction_intervals_single_class_raises:
  assumes "\<not> both_classes y_full"
    and "\<forall>idx \<in> set resamples. list_all (\<lambda>i. i < length y_full) idx"
  shows "boot_loop predict y_full m resamples [] = Inr [] \<and>
    bootstrap_prediction_intervals predict y_full m resamples = Inl IndexError"
proof -
  have "filter (\<lambda>idx. both_classes (map (\<lambda>i. y_full ! i) idx)) resamples = []"
    using assms single_class_resample by (simp add: filter_empty_conv)
  then have "boot_loop predict y_full m resamples [] = Inr []"
    using boot_loop_valid [of resamples y_full predict m "[]"] assms(2) by simp
  then show ?thesis by (simp add: bootstrap_prediction_intervals_def)
qed

theorem bootstrap_prediction_intervals_single_class_raises_witness:
  "\<not> both_classes [False, False, False] \<and>
   list_all (\<lambda>i. i < length [False, False, False]) [0, 2, 2] \<and>
   list_all (\<lambda>i. i < length [False, False, False]) [1, 1, 0] \<and>
   boot_loop (share_fit [False, False, False]) [False, False, False] 2 [[0, 2, 2], [1, 1, 0]] []
     = Inr [] \<and>
   bootstrap_prediction_intervals (share_fit [False, False, False]) [False, False, False] 2
     [[0, 2, 2], [1, 1, 0]] = Inl IndexError"
  using bootstrap_prediction_intervals_single_class_raises
    [of "[False, False, False]" "[[0, 2, 2], [1, 1, 0]]" "share_fit [False, False, False]" 2]
  by (simp add: both_classes_def)

section \<open>Construction-extraction pipeline (\<open>11_extract_let_alone.py\<close>)\<close>

text \<open>
  One row of the feature table, with the ten columns the script writes. \<open>y_form\<close> may be
  missing (NaN) in a table read from a treebank, so it is optional.
\<close>

record feature_row =
  sentence_id :: string
  x_form :: string
  y_form :: "string option"
  upos_x :: string
  upos_y :: string
  parallelism :: int
  licensing :: int
  dist_x_anchor :: int
  dist_anchor_y :: int
  corpus :: string

subsection \<open>Collostruction scores\<close>

text \<open>
  \<open>df["y_form"].str.lower().fillna("")\<close>. \<open>str.lower\<close> is the library's; it is the
  parameter \<open>lower\<close>.
\<close>

definition y_form_norm :: "(string \<Rightarrow> string) \<Rightarrow> feature_row \<Rightarrow> string" where
  "y_form_norm lower r = (case y_form r of None \<Rightarrow> [] | Some s \<Rightarrow> lower s)"

text \<open>\<open>Series.unique()\<close>: the distinct values in the order of their first appearance.\<close>

fun unique_from :: "'a list \<Rightarrow> 'a list \<Rightarrow> 'a list" where
  "unique_from seen [] = []"
| "unique_from seen (x # xs) =
     (if x \<in> set seen then unique_from seen xs else x # unique_from (x # seen) xs)"

definition py_unique :: "'a list \<Rightarrow> 'a list" where
  "py_unique xs = unique_from [] xs"

text \<open>
  \<open>df[df["corpus"] == c]["y_form_norm"]\<close>, the column that \<open>value_counts()\<close> counts: the
  count of a form is \<open>count_list\<close> of it in this list (\<open>counts.get(form, 0)\<close>), the index of
  the counts is the set of its members, and \<open>counts.sum()\<close> is its length.
\<close>

definition corpus_forms :: "(string \<Rightarrow> string) \<Rightarrow> feature_row list \<Rightarrow> string \<Rightarrow> string list" where
  "corpus_forms lower df c = map (y_form_norm lower) (filter (\<lambda>r. corpus r = c) df)"

definition epsilon :: real where
  "epsilon = 1 / 10 ^ 12"

text \<open>
  The list \<open>terms\<close> of the G-squared computation, for the four cells \<open>a\<close>, \<open>b\<close>, \<open>c\<close>, \<open>d\<close>
  (floats, read as reals; \<open>np.log\<close> is the natural logarithm).
\<close>

definition llr_terms :: "real \<Rightarrow> real \<Rightarrow> real \<Rightarrow> real \<Rightarrow> real list" where
  "llr_terms a b c d =
     (let row1 = a + c; row2 = b + d; col1 = a + b; col2 = c + d;
          total = row1 + row2;
          E_a = (if total > 0 then row1 * col1 / total else 0);
          E_b = (if total > 0 then row1 * col2 / total else 0);
          E_c = (if total > 0 then row2 * col1 / total else 0);
          E_d = (if total > 0 then row2 * col2 / total else 0)
      in (if a > 0 then [a * ln ((a + epsilon) / (E_a + epsilon))] else []) @
         (if b > 0 then [b * ln ((b + epsilon) / (E_b + epsilon))] else []) @
         (if c > 0 then [c * ln ((c + epsilon) / (E_c + epsilon))] else []) @
         (if d > 0 then [d * ln ((d + epsilon) / (E_d + epsilon))] else []))"

definition G_squared :: "real \<Rightarrow> real \<Rightarrow> real \<Rightarrow> real \<Rightarrow> real" where
  "G_squared a b c d = 2 * sum_list (llr_terms a b c d)"

text \<open>
  A Python \<open>dict\<close> as an association list in insertion order: assigning to a key that is
  present replaces its value in place, assigning to a new key appends it.
\<close>

fun dict_set :: "'k \<Rightarrow> 'v \<Rightarrow> ('k \<times> 'v) list \<Rightarrow> ('k \<times> 'v) list" where
  "dict_set k v [] = [(k, v)]"
| "dict_set k v ((k', v') # kvs) =
     (if k = k' then (k, v) # kvs else (k', v') # dict_set k v kvs)"

text \<open>The body of the loop over \<open>all_forms\<close>, for one form.\<close>

definition score_form ::
  "string \<Rightarrow> string \<Rightarrow> string list \<Rightarrow> string list \<Rightarrow> string
    \<Rightarrow> ((string \<times> string) \<times> real) list \<Rightarrow> ((string \<times> string) \<times> real) list" where
  "score_form corpus_a corpus_b forms_a forms_b form llr_scores =
     (let total_a = real (length forms_a); total_b = real (length forms_b);
          a = real (count_list forms_a form); b = total_a - a;
          c = real (count_list forms_b form); d = total_b - c
      in if a + c = 0 then llr_scores
         else let G = G_squared a b c d;
                  freq_a = (if total_a > 0 then a / total_a else 0);
                  freq_b = (if total_b > 0 then c / total_b else 0)
              in if freq_a > freq_b then dict_set (form, corpus_a) G llr_scores
                 else if freq_b > freq_a then dict_set (form, corpus_b) G llr_scores
                 else llr_scores)"

text \<open>
  The dictionary \<open>llr_scores\<close> after the loop. \<open>all_forms\<close> is a Python set, and the order
  in which the loop visits it is not fixed by the language; \<open>set_order\<close> stands for it.
  The table has exactly two corpus labels here.
\<close>

definition llr_scores ::
  "(string \<Rightarrow> string) \<Rightarrow> (string list \<Rightarrow> string list) \<Rightarrow> feature_row list
    \<Rightarrow> ((string \<times> string) \<times> real) list" where
  "llr_scores lower set_order df =
     (let corpora = py_unique (map corpus df);
          corpus_a = corpora ! 0; corpus_b = corpora ! 1;
          forms_a = corpus_forms lower df corpus_a;
          forms_b = corpus_forms lower df corpus_b;
          all_forms = set_order (remdups (forms_a @ forms_b))
      in fold (score_form corpus_a corpus_b forms_a forms_b) all_forms [])"

text \<open>
  The five best forms of a corpus: the entries attributed to it, sorted by descending score
  (Python's sort is stable), cut after five. The source renders each pair as
  \<open>f"{f}:{s:.2f}"\<close> and joins them with \<open>"; "\<close>; the model keeps the pairs.
\<close>

definition top5 :: "((string \<times> string) \<times> real) list \<Rightarrow> string \<Rightarrow> (string \<times> real) list" where
  "top5 scores c =
     take 5 (sort_key (\<lambda>x. - snd x)
       (map (\<lambda>kv. (fst (fst kv), snd kv)) (filter (\<lambda>kv. snd (fst kv) = c) scores)))"

definition compute_collostruction ::
  "(string \<Rightarrow> string) \<Rightarrow> (string list \<Rightarrow> string list) \<Rightarrow> feature_row list
    \<Rightarrow> (string \<times> (string \<times> real) list) list" where
  "compute_collostruction lower set_order df =
     (let results = [(''gum'', []), (''ewt'', [])];
          corpora = py_unique (map corpus df)
      in if length corpora \<noteq> 2 then results
         else let corpus_a = corpora ! 0; corpus_b = corpora ! 1;
                  scores = llr_scores lower set_order df
              in dict_set corpus_b (top5 scores corpus_b)
                   (dict_set corpus_a (top5 scores corpus_a) results))"

text \<open>
  The contribution of one cell to the statistic as the specification words it: nothing for
  a cell whose observed count is zero, and otherwise the observed count times the logarithm
  of the smoothed ratio of observed to expected count.
\<close>

definition cell_term :: "real \<Rightarrow> real \<Rightarrow> real" where
  "cell_term obs expected =
     (if obs > 0 then obs * ln ((obs + epsilon) / (expected + epsilon)) else 0)"

text \<open>Exchanging two corpus labels in the table.\<close>

definition swap_label :: "string \<Rightarrow> string \<Rightarrow> string \<Rightarrow> string" where
  "swap_label ca cb c = (if c = ca then cb else if c = cb then ca else c)"

definition relabel :: "string \<Rightarrow> string \<Rightarrow> feature_row list \<Rightarrow> feature_row list" where
  "relabel ca cb df = map (\<lambda>r. r\<lparr>corpus := swap_label ca cb (corpus r)\<rparr>) df"

text \<open>A small table: three instances in \<open>gum\<close>, three in \<open>ewt\<close>.\<close>

definition inst :: "string \<Rightarrow> string \<Rightarrow> feature_row" where
  "inst c y = \<lparr>sentence_id = ''s'', x_form = ''x'', y_form = Some y, upos_x = ''NOUN'',
     upos_y = ''NOUN'', parallelism = 1, licensing = 1, dist_x_anchor = 1, dist_anchor_y = 1,
     corpus = c\<rparr>"

definition example_table :: "feature_row list" where
  "example_table = [inst ''gum'' ''walk'', inst ''gum'' ''run'', inst ''gum'' ''run'',
     inst ''ewt'' ''walk'', inst ''ewt'' ''fly'', inst ''ewt'' ''fly'']"

text \<open>
  The same three instances in two orders: the rows of \<open>gum\<close> first, so that \<open>gum\<close> is
  \<open>corpus_a\<close>, and the rows of \<open>ewt\<close> first, so that \<open>ewt\<close> is \<open>corpus_a\<close>.
\<close>

definition gum_first :: "feature_row list" where
  "gum_first = [inst ''gum'' ''walk'', inst ''gum'' ''run'', inst ''ewt'' ''run'']"

definition ewt_first :: "feature_row list" where
  "ewt_first = [inst ''ewt'' ''run'', inst ''gum'' ''walk'', inst ''gum'' ''run'']"

lemma unique_from_map:
  assumes "inj f"
  shows "unique_from (map f seen) (map f xs) = map f (unique_from seen xs)"
proof (induction xs arbitrary: seen)
  case Nil
  then show ?case by simp
next
  case (Cons a xs)
  have mem: "f a \<in> set (map f seen) \<longleftrightarrow> a \<in> set seen"
    using assms by (auto simp: inj_def)
  show ?case
  proof (cases "a \<in> set seen")
    case True
    with mem Cons.IH [of seen] show ?thesis by simp
  next
    case False
    with mem Cons.IH [of "a # seen"] show ?thesis by simp
  qed
qed

lemma py_unique_map: "inj f \<Longrightarrow> py_unique (map f xs) = map f (py_unique xs)"
  unfolding py_unique_def using unique_from_map [of f "[]" xs] by simp

lemma dict_set_map_key:
  assumes "inj h"
  shows "dict_set (h k) v (map (\<lambda>kv. (h (fst kv), snd kv)) d)
     = map (\<lambda>kv. (h (fst kv), snd kv)) (dict_set k v d)"
  using assms by (induction d) (auto simp: inj_def)

lemma map_of_dict_set:
  "map_of (dict_set k v d) k' = (if k' = k then Some v else map_of d k')"
  by (induction d) auto

lemma set_dict_set: "set (dict_set k v d) \<subseteq> insert (k, v) (set d)"
  by (induction d) (auto split: if_splits)

lemma swap_label_involution: "swap_label ca cb (swap_label ca cb c) = c"
  by (simp add: swap_label_def)

lemma inj_swap_label: "inj (swap_label ca cb)"
  by (rule inj_on_inverseI [where g = "swap_label ca cb"]) (rule swap_label_involution)

lemma corpus_relabel: "map corpus (relabel ca cb df) = map (swap_label ca cb) (map corpus df)"
  by (simp add: relabel_def)

lemma corpus_forms_relabel:
  "corpus_forms lower (relabel ca cb df) (swap_label ca cb c) = corpus_forms lower df c"
proof -
  have eq: "swap_label ca cb x = swap_label ca cb c \<longleftrightarrow> x = c" for x
    using inj_swap_label [of ca cb] by (auto simp: inj_def)
  show ?thesis
    by (simp add: corpus_forms_def relabel_def filter_map comp_def eq y_form_norm_def)
qed

lemma score_form_relabel:
  "score_form (swap_label ca cb A) (swap_label ca cb B) fa fb form
      (map (\<lambda>kv. ((fst (fst kv), swap_label ca cb (snd (fst kv))), snd kv)) acc)
   = map (\<lambda>kv. ((fst (fst kv), swap_label ca cb (snd (fst kv))), snd kv))
      (score_form A B fa fb form acc)"
proof -
  let ?h = "\<lambda>k :: string \<times> string. (fst k, swap_label ca cb (snd k))"
  have "inj ?h"
    using inj_swap_label [of ca cb] by (auto simp: inj_def)
  have set: "dict_set (form, swap_label ca cb c) v
        (map (\<lambda>kv. ((fst (fst kv), swap_label ca cb (snd (fst kv))), snd kv)) acc)
      = map (\<lambda>kv. ((fst (fst kv), swap_label ca cb (snd (fst kv))), snd kv))
        (dict_set (form, c) v acc)" for c v
    using dict_set_map_key [OF \<open>inj ?h\<close>, of "(form, c)" v acc] by simp
  show ?thesis by (simp add: score_form_def Let_def set)
qed

lemma fold_score_form_relabel:
  "fold (score_form (swap_label ca cb A) (swap_label ca cb B) fa fb) forms
      (map (\<lambda>kv. ((fst (fst kv), swap_label ca cb (snd (fst kv))), snd kv)) acc)
   = map (\<lambda>kv. ((fst (fst kv), swap_label ca cb (snd (fst kv))), snd kv))
      (fold (score_form A B fa fb) forms acc)"
proof (induction forms arbitrary: acc)
  case Nil
  then show ?case by simp
next
  case (Cons form forms)
  show ?case by (simp add: score_form_relabel Cons.IH)
qed
lemma unique_from_set: "set (unique_from seen xs) = set xs - set seen"
  by (induction xs arbitrary: seen) auto

lemma unique_from_distinct: "distinct (unique_from seen xs)"
  by (induction xs arbitrary: seen) (auto simp: unique_from_set)

lemma py_unique_distinct: "distinct (py_unique xs)"
  by (simp add: py_unique_def unique_from_distinct)

lemma two_corpora_differ: "py_unique xs = [ca, cb] \<Longrightarrow> ca \<noteq> cb"
  using py_unique_distinct [of xs] by auto

lemma py_unique_relabel:
  assumes "py_unique (map corpus df) = [ca, cb]"
  shows "py_unique (map corpus (relabel ca cb df)) = [cb, ca]"
proof -
  have "py_unique (map corpus (relabel ca cb df)) = map (swap_label ca cb) [ca, cb]"
    unfolding corpus_relabel using py_unique_map [OF inj_swap_label] assms by metis
  then show ?thesis by (simp add: swap_label_def)
qed
lemma top5_relabel:
  "top5 (map (\<lambda>kv. ((fst (fst kv), swap_label ca cb (snd (fst kv))), snd kv)) scores)
      (swap_label ca cb c) = top5 scores c"
proof -
  have eq: "swap_label ca cb x = swap_label ca cb c \<longleftrightarrow> x = c" for x
    using inj_swap_label [of ca cb] by (auto simp: inj_def)
  show ?thesis by (simp add: top5_def filter_map comp_def eq)
qed

lemma llr_scores_relabel:
  assumes two: "py_unique (map corpus df) = [ca, cb]"
  shows "llr_scores lower set_order (relabel ca cb df)
     = map (\<lambda>kv. ((fst (fst kv), swap_label ca cb (snd (fst kv))), snd kv))
        (llr_scores lower set_order df)"
proof -
  have sa: "swap_label ca cb ca = cb" and sb: "swap_label ca cb cb = ca"
    by (simp_all add: swap_label_def)
  have fa: "corpus_forms lower (relabel ca cb df) cb = corpus_forms lower df ca"
    using corpus_forms_relabel [of lower ca cb df ca] by (simp add: sa)
  have fb: "corpus_forms lower (relabel ca cb df) ca = corpus_forms lower df cb"
    using corpus_forms_relabel [of lower ca cb df cb] by (simp add: sb)
  let ?fa = "corpus_forms lower df ca" and ?fb = "corpus_forms lower df cb"
  let ?forms = "set_order (remdups (?fa @ ?fb))"
  have "llr_scores lower set_order (relabel ca cb df)
      = fold (score_form cb ca ?fa ?fb) ?forms []"
    by (simp add: llr_scores_def py_unique_relabel [OF two] fa fb Let_def)
  also have "\<dots> = fold (score_form (swap_label ca cb ca) (swap_label ca cb cb) ?fa ?fb) ?forms
      (map (\<lambda>kv. ((fst (fst kv), swap_label ca cb (snd (fst kv))), snd kv)) [])"
    by (simp add: sa sb)
  also have "\<dots> = map (\<lambda>kv. ((fst (fst kv), swap_label ca cb (snd (fst kv))), snd kv))
      (fold (score_form ca cb ?fa ?fb) ?forms [])"
    by (rule fold_score_form_relabel)
  also have "fold (score_form ca cb ?fa ?fb) ?forms [] = llr_scores lower set_order df"
    by (simp add: llr_scores_def two Let_def)
  finally show ?thesis .
qed

lemma freq_total: "(if 0 < real n then x / real n else 0) = x / real n"
  by simp

lemma score_form_keeps_out:
  assumes tie: "real (count_list fa f) / real (length fa) = real (count_list fb f) / real (length fb)"
    and acc: "\<forall>kv \<in> set acc. fst (fst kv) \<noteq> f"
  shows "\<forall>kv \<in> set (score_form A B fa fb form acc). fst (fst kv) \<noteq> f"
proof (cases "form = f")
  case True
  have "score_form A B fa fb f acc = acc"
    unfolding score_form_def Let_def freq_total using tie by simp
  with acc True show ?thesis by simp
next
  case False
  have key: "\<forall>kv \<in> set (dict_set (form, X) v acc). fst (fst kv) \<noteq> f" for X v
  proof
    fix kv assume "kv \<in> set (dict_set (form, X) v acc)"
    then have "kv = ((form, X), v) \<or> kv \<in> set acc"
      using set_dict_set [of "(form, X)" v acc] by blast
    then show "fst (fst kv) \<noteq> f" using False acc by auto
  qed
  have "score_form A B fa fb form acc = acc \<or>
      (\<exists>v. score_form A B fa fb form acc = dict_set (form, A) v acc) \<or>
      (\<exists>v. score_form A B fa fb form acc = dict_set (form, B) v acc)"
    unfolding score_form_def Let_def by metis
  then show ?thesis using acc key by metis
qed

lemma fold_score_form_keeps_out:
  assumes tie: "real (count_list fa f) / real (length fa) = real (count_list fb f) / real (length fb)"
    and acc: "\<forall>kv \<in> set acc. fst (fst kv) \<noteq> f"
  shows "\<forall>kv \<in> set (fold (score_form A B fa fb) forms acc). fst (fst kv) \<noteq> f"
  using acc
proof (induction forms arbitrary: acc)
  case Nil
  then show ?case by simp
next
  case (Cons form forms)
  from score_form_keeps_out [OF tie Cons.prems]
  have "\<forall>kv \<in> set (score_form A B fa fb form acc). fst (fst kv) \<noteq> f" .
  from Cons.IH [OF this] show ?case by simp
qed

lemma top5_forms: "fst ` set (top5 scores c) \<subseteq> (\<lambda>kv. fst (fst kv)) ` set scores"
proof -
  have "set (top5 scores c) \<subseteq> (\<lambda>kv. (fst (fst kv), snd kv)) ` set scores"
    unfolding top5_def using set_take_subset [of 5] by fastforce
  then show ?thesis by force
qed

lemma example_corpora: "py_unique (map corpus example_table) = [''gum'', ''ewt'']"
  by (simp add: py_unique_def example_table_def inst_def)

text \<open>
  Renaming in place. In a table with exactly two corpus labels, exchanging the two labels
  without moving a row leaves every entry of \<open>llr_scores\<close> in place with the same form and
  the same value; only the label of the entry is exchanged. The rows that came first still
  come first, so the same rows are \<open>corpus_a\<close>.
\<close>

lemma compute_collostruction_relabel:
  assumes two: "py_unique (map corpus df) = [ca, cb]"
  shows "llr_scores lower set_order (relabel ca cb df)
       = map (\<lambda>kv. ((fst (fst kv), swap_label ca cb (snd (fst kv))), snd kv))
          (llr_scores lower set_order df) \<and>
     map_of (compute_collostruction lower set_order (relabel ca cb df)) cb
       = map_of (compute_collostruction lower set_order df) ca \<and>
     map_of (compute_collostruction lower set_order (relabel ca cb df)) ca
       = map_of (compute_collostruction lower set_order df) cb"
proof -
  note rel = llr_scores_relabel [OF two, of lower set_order]
  have ne: "ca \<noteq> cb" using two by (rule two_corpora_differ)
  have sa: "swap_label ca cb ca = cb" and sb: "swap_label ca cb cb = ca"
    by (simp_all add: swap_label_def)
  let ?S = "llr_scores lower set_order df"
  let ?S' = "llr_scores lower set_order (relabel ca cb df)"
  have ta: "top5 ?S' cb = top5 ?S ca"
    unfolding rel using top5_relabel [of ca cb ?S ca] by (simp add: sa)
  have tb: "top5 ?S' ca = top5 ?S cb"
    unfolding rel using top5_relabel [of ca cb ?S cb] by (simp add: sb)
  have res: "compute_collostruction lower set_order df
      = dict_set cb (top5 ?S cb) (dict_set ca (top5 ?S ca) [(''gum'', []), (''ewt'', [])])"
    by (simp add: compute_collostruction_def two Let_def)
  have res': "compute_collostruction lower set_order (relabel ca cb df)
      = dict_set ca (top5 ?S' ca) (dict_set cb (top5 ?S' cb) [(''gum'', []), (''ewt'', [])])"
    by (simp add: compute_collostruction_def py_unique_relabel [OF two] Let_def)
  show ?thesis
    unfolding res res' using ne rel ta tb by (simp add: map_of_dict_set)
qed


lemma epsilon_pos: "0 < epsilon"
  by (simp add: epsilon_def)

lemma G_squared_1101:
  "G_squared 1 1 0 1 = 2 * (ln ((1 + epsilon) / (2 / 3 + epsilon)) +
     ln ((1 + epsilon) / (1 / 3 + epsilon)) + ln ((1 + epsilon) / (2 / 3 + epsilon)))"
  by (simp add: G_squared_def llr_terms_def Let_def)

lemma G_squared_0111:
  "G_squared 0 1 1 1 = 2 * (ln ((1 + epsilon) / (2 / 3 + epsilon)) +
     ln ((1 + epsilon) / (2 / 3 + epsilon)) + ln ((1 + epsilon) / (4 / 3 + epsilon)))"
  by (simp add: G_squared_def llr_terms_def Let_def)

lemma G_squared_roles_exchanged: "G_squared 0 1 1 1 < G_squared 1 1 0 1"
proof -
  have e: "0 < epsilon" by (rule epsilon_pos)
  have "(1 + epsilon) / (4 / 3 + epsilon) < (1 + epsilon) / (1 / 3 + epsilon)"
    using e by (intro divide_strict_left_mono mult_pos_pos) simp_all
  moreover have "0 < (1 + epsilon) / (4 / 3 + epsilon)" using e by simp
  ultimately have "ln ((1 + epsilon) / (4 / 3 + epsilon)) < ln ((1 + epsilon) / (1 / 3 + epsilon))"
    by (simp only: ln_less_cancel_iff [OF _ less_trans])
  then show ?thesis unfolding G_squared_1101 G_squared_0111 by simp
qed

lemma gum_first_scores:
  "llr_scores (\<lambda>s. s) (\<lambda>xs. xs) gum_first =
     [((''walk'', ''gum''), G_squared 1 1 0 1), ((''run'', ''ewt''), G_squared 1 1 1 0)]"
  by (simp add: llr_scores_def gum_first_def inst_def py_unique_def corpus_forms_def
      y_form_norm_def score_form_def Let_def)

lemma ewt_first_scores:
  "llr_scores (\<lambda>s. s) (\<lambda>xs. xs) ewt_first =
     [((''walk'', ''gum''), G_squared 0 1 1 1), ((''run'', ''ewt''), G_squared 1 0 1 1)]"
  by (simp add: llr_scores_def ewt_first_def inst_def py_unique_def corpus_forms_def
      y_form_norm_def score_form_def Let_def)

text \<open>
  C5. Exchanging which corpus is \<open>corpus_a\<close> and which is \<open>corpus_b\<close> exchanges the cells
  \<open>a\<close> with \<open>c\<close> and \<open>b\<close> with \<open>d\<close>. G-squared of a two-by-two table does not change
  under that exchange; the value computed here does, because \<open>E_b\<close> is the expected count
  of cell \<open>c\<close> and \<open>E_c\<close> that of cell \<open>b\<close>. For the form \<open>walk\<close>, attributed to \<open>gum\<close> in
  both orders of the same three rows, the cells are (1, 1, 0, 1) with \<open>gum\<close> first and
  (0, 1, 1, 1) with \<open>ewt\<close> first, and the second value is smaller than the first.
\<close>

theorem llr_scores_depend_on_corpus_order:
  "llr_scores (\<lambda>s. s) (\<lambda>xs. xs) gum_first =
     [((''walk'', ''gum''), G_squared 1 1 0 1), ((''run'', ''ewt''), G_squared 1 1 1 0)] \<and>
   llr_scores (\<lambda>s. s) (\<lambda>xs. xs) ewt_first =
     [((''walk'', ''gum''), G_squared 0 1 1 1), ((''run'', ''ewt''), G_squared 1 0 1 1)] \<and>
   G_squared 0 1 1 1 < G_squared 1 1 0 1"
  using gum_first_scores ewt_first_scores G_squared_roles_exchanged by simp

text \<open>
  C6. In a table with exactly two corpus labels, a form whose count divided by the corpus
  total is the same in both corpora gets no entry in \<open>llr_scores\<close>, under either corpus, and
  is in none of the lists of best forms that \<open>compute_collostruction\<close> returns.
\<close>

theorem compute_collostruction_tie_excluded:
  assumes two: "py_unique (map corpus df) = [ca, cb]"
    and tie: "real (count_list (corpus_forms lower df ca) f)
        / real (length (corpus_forms lower df ca))
      = real (count_list (corpus_forms lower df cb) f)
        / real (length (corpus_forms lower df cb))"
  shows "(\<forall>kv \<in> set (llr_scores lower set_order df). fst (fst kv) \<noteq> f) \<and>
    (\<forall>entry \<in> set (compute_collostruction lower set_order df). f \<notin> fst ` set (snd entry))"
proof -
  let ?S = "llr_scores lower set_order df"
  have S: "\<forall>kv \<in> set ?S. fst (fst kv) \<noteq> f"
    unfolding llr_scores_def Let_def two
    using fold_score_form_keeps_out [OF tie, of "[]"] by simp
  have top: "f \<notin> fst ` set (top5 ?S c)" for c
    using top5_forms [of ?S c] S by force
  have res: "compute_collostruction lower set_order df
      = dict_set cb (top5 ?S cb) (dict_set ca (top5 ?S ca) [(''gum'', []), (''ewt'', [])])"
    by (simp add: compute_collostruction_def two Let_def)
  have "set (compute_collostruction lower set_order df)
      \<subseteq> {(cb, top5 ?S cb), (ca, top5 ?S ca), (''gum'', []), (''ewt'', [])}"
    unfolding res
    using set_dict_set [of cb "top5 ?S cb" "dict_set ca (top5 ?S ca) [(''gum'', []), (''ewt'', [])]"]
      set_dict_set [of ca "top5 ?S ca" "[(''gum'', []), (''ewt'', [])]"]
    by auto
  then have "\<forall>entry \<in> set (compute_collostruction lower set_order df).
      f \<notin> fst ` set (snd entry)"
    using top by fastforce
  with S show ?thesis by blast
qed

theorem compute_collostruction_tie_excluded_witness:
  "py_unique (map corpus example_table) = [''gum'', ''ewt''] \<and>
   real (count_list (corpus_forms (\<lambda>s. s) example_table ''gum'') ''walk'')
        / real (length (corpus_forms (\<lambda>s. s) example_table ''gum''))
      = real (count_list (corpus_forms (\<lambda>s. s) example_table ''ewt'') ''walk'')
        / real (length (corpus_forms (\<lambda>s. s) example_table ''ewt'')) \<and>
   \<not> (\<exists>kv \<in> set (llr_scores (\<lambda>s. s) (\<lambda>xs. xs) example_table). fst (fst kv) = ''walk'') \<and>
   \<not> (\<exists>entry \<in> set (compute_collostruction (\<lambda>s. s) (\<lambda>xs. xs) example_table).
        ''walk'' \<in> fst ` set (snd entry))"
proof -
  have tie: "real (count_list (corpus_forms (\<lambda>s. s) example_table ''gum'') ''walk'')
        / real (length (corpus_forms (\<lambda>s. s) example_table ''gum''))
      = real (count_list (corpus_forms (\<lambda>s. s) example_table ''ewt'') ''walk'')
        / real (length (corpus_forms (\<lambda>s. s) example_table ''ewt''))"
    by (simp add: corpus_forms_def example_table_def inst_def y_form_norm_def)
  from compute_collostruction_tie_excluded [OF example_corpora tie, of "\<lambda>xs. xs"]
    example_corpora tie
  show ?thesis by blast
qed

text \<open>
  C7. The statistic is twice the sum of the four cell contributions, where a cell with
  observed count zero contributes exactly 0 whatever its expected count, and \<open>epsilon\<close>
  occurs only in the two arguments of the logarithm of a cell with a positive count.
\<close>

theorem G_squared_cell_terms:
  "G_squared a b c d =
     (let row1 = a + c; row2 = b + d; col1 = a + b; col2 = c + d;
          total = row1 + row2;
          E_a = (if total > 0 then row1 * col1 / total else 0);
          E_b = (if total > 0 then row1 * col2 / total else 0);
          E_c = (if total > 0 then row2 * col1 / total else 0);
          E_d = (if total > 0 then row2 * col2 / total else 0)
      in 2 * (cell_term a E_a + cell_term b E_b + cell_term c E_c + cell_term d E_d)) \<and>
   cell_term 0 e = 0"
  by (simp add: G_squared_def llr_terms_def cell_term_def Let_def)

theorem G_squared_cell_terms_witness:
  "G_squared 1 1 0 1 =
     2 * (cell_term 1 (2 / 3) + cell_term 1 (1 / 3) + cell_term 0 (4 / 3) + cell_term 1 (2 / 3)) \<and>
   cell_term 0 (4 / 3) = 0"
  using G_squared_cell_terms [of 1 1 0 1 "4 / 3"] by (simp add: Let_def)

subsection \<open>Loading the features of a corpus\<close>

text \<open>
  The global generator \<open>np.random\<close>: a state of some type \<open>'g\<close> and the four operations the
  script calls on it. Each operation is a function of the state, as the library's generator
  is; which numbers it yields is left open. \<open>np_seed k\<close> is the state that
  \<open>np.random.seed(k)\<close> installs, whatever the state before.
\<close>

record 'g np_random =
  np_seed :: "nat \<Rightarrow> 'g"
  np_choice :: "'g \<Rightarrow> string list \<Rightarrow> string \<times> 'g"
  np_rand :: "'g \<Rightarrow> real \<times> 'g"
  np_randint :: "'g \<Rightarrow> int \<Rightarrow> int \<Rightarrow> int \<times> 'g"

text \<open>\<open>str(i)\<close> for a natural number: its decimal digits.\<close>

definition digit_char :: "nat \<Rightarrow> char" where
  "digit_char d = ''0123456789'' ! d"

fun str_nat :: "nat \<Rightarrow> string" where
  "str_nat n = (if n < 10 then [digit_char n] else str_nat (n div 10) @ [digit_char (n mod 10)])"

text \<open>\<open>os.path.join\<close> of two components (POSIX), and the directory of a corpus.\<close>

definition path_join :: "string \<Rightarrow> string \<Rightarrow> string" where
  "path_join a b =
     (if b \<noteq> [] \<and> hd b = CHR ''/'' then b
      else if a = [] \<or> last a = CHR ''/'' then a @ b
      else a @ ''/'' @ b)"

definition base_dir :: "string \<Rightarrow> string" where
  "base_dir corp = path_join (path_join ''data'' ''ud'') corp"

definition endswith :: "string \<Rightarrow> string \<Rightarrow> bool" where
  "endswith s suffix \<longleftrightarrow>
     length suffix \<le> length s \<and> drop (length s - length suffix) s = suffix"

text \<open>
  The file system as the function reads it: \<open>fs d\<close> is \<open>None\<close> when \<open>d\<close> is not a directory
  and the listing \<open>os.listdir(d)\<close> otherwise. \<open>no_conllu\<close> is the condition of the fallback
  branch.
\<close>

definition no_conllu :: "(string \<Rightarrow> string list option) \<Rightarrow> string \<Rightarrow> bool" where
  "no_conllu fs corp =
     (case fs (base_dir corp) of
        None \<Rightarrow> True
      | Some listing \<Rightarrow> \<not> list_ex (\<lambda>f. endswith f ''.conllu'') listing)"

definition upos_choices :: "string list" where
  "upos_choices = [''NOUN'', ''VERB'', ''ADJ'', ''OTHER'']"

text \<open>
  One iteration of the loop that builds the synthetic rows, with the draws in the order in
  which Python evaluates them: \<open>x_upos\<close>, \<open>y_upos\<close>, the uniform draw for \<open>licensing\<close>, then
  the two distances inside the dictionary display.
\<close>

definition synth_row :: "'g np_random \<Rightarrow> string \<Rightarrow> nat \<Rightarrow> 'g \<Rightarrow> feature_row \<times> 'g" where
  "synth_row R corp i g =
     (let (x_upos, g1) = np_choice R g upos_choices;
          (y_upos, g2) = np_choice R g1 upos_choices;
          parallel = (if (x_upos = ''NOUN'' \<and> y_upos = ''NOUN'') \<or>
                         (x_upos = y_upos \<and> (x_upos = ''VERB'' \<or> x_upos = ''ADJ''))
                      then 1 else 0);
          (u, g3) = np_rand R g2;
          licensed = (if u < (if corp = ''gum'' then 0.6 else 0.55) then 1 else 0);
          (dx, g4) = np_randint R g3 1 4;
          (dy, g5) = np_randint R g4 1 4
      in (\<lparr>sentence_id = ''syn-'' @ corp @ ''-'' @ str_nat i,
           x_form = ''X'' @ str_nat i,
           y_form = Some (''Y'' @ str_nat i),
           upos_x = x_upos, upos_y = y_upos,
           parallelism = parallel, licensing = licensed,
           dist_x_anchor = dx, dist_anchor_y = dy,
           corpus = corp\<rparr>, g5))"

fun synth_loop :: "'g np_random \<Rightarrow> string \<Rightarrow> nat list \<Rightarrow> 'g \<Rightarrow> feature_row list \<times> 'g" where
  "synth_loop R corp [] g = ([], g)"
| "synth_loop R corp (i # rest) g =
     (let (row, g') = synth_row R corp i g;
          (rows, g'') = synth_loop R corp rest g'
      in (row # rows, g''))"

text \<open>
  The branch for real data. \<open>utils_ud.load_conllu\<close> and
  \<open>utils_ud.extract_let_alone_features\<close> belong to a module that is not among the sources;
  \<open>parse path\<close> stands for the rows they give for the file at \<open>path\<close>, or the exception
  they raise.
\<close>

fun parse_loop ::
  "(string \<Rightarrow> py_error + feature_row list) \<Rightarrow> string \<Rightarrow> string list \<Rightarrow> string list
    \<Rightarrow> (py_error + feature_row list) \<times> string list" where
  "parse_loop parse corp [] out = (Inr [], out)"
| "parse_loop parse corp (filename # rest) out =
     (let path = path_join (base_dir corp) filename;
          out' = out @ [''Parsing '' @ path @ ''...'']
      in case parse path of
           Inl e \<Rightarrow> (Inl e, out')
         | Inr feats \<Rightarrow>
             (case parse_loop parse corp rest out' of
                (Inl e, out'') \<Rightarrow> (Inl e, out'')
              | (Inr rows, out'') \<Rightarrow> (Inr (map (\<lambda>r. r\<lparr>corpus := corp\<rparr>) feats @ rows), out'')))"

text \<open>
  \<open>load_corpus_features\<close>. The state it works on is the state of the generator together
  with the lines printed so far; it returns the table (or the exception) and the new state.
\<close>

definition synthetic_table ::
  "'g np_random \<Rightarrow> string \<Rightarrow> 'g \<times> string list
    \<Rightarrow> (py_error + feature_row list) \<times> ('g \<times> string list)" where
  "synthetic_table R corp w =
     (let out = snd w @ [''[WARN] No .conllu files found for corpus '' @ [CHR 0x27] @ corp @
            [CHR 0x27] @ ''. Generating synthetic data.''];
          g0 = np_seed R (if corp = ''gum'' then 0 else 1);
          n = (if corp = ''gum'' then 12 else 15);
          (rows, g1) = synth_loop R corp [0..<n] g0
      in (Inr rows, (g1, out)))"

definition load_corpus_features ::
  "'g np_random \<Rightarrow> (string \<Rightarrow> py_error + feature_row list) \<Rightarrow> (string \<Rightarrow> string list option)
    \<Rightarrow> string \<Rightarrow> 'g \<times> string list \<Rightarrow> (py_error + feature_row list) \<times> ('g \<times> string list)" where
  "load_corpus_features R parse fs corp w =
     (case fs (base_dir corp) of
        None \<Rightarrow> synthetic_table R corp w
      | Some listing \<Rightarrow>
          if \<not> list_ex (\<lambda>f. endswith f ''.conllu'') listing then synthetic_table R corp w
          else let files = filter (\<lambda>f. endswith f ''.conllu'') listing;
                   (res, out) = parse_loop parse corp files (snd w)
               in (res, (fst w, out)))"

text \<open>A generator for examples: the state is a counter.\<close>

definition counter_random :: "nat np_random" where
  "counter_random =
     \<lparr>np_seed = (\<lambda>k. k),
      np_choice = (\<lambda>g xs. (xs ! (g mod length xs), Suc g)),
      np_rand = (\<lambda>g. (real (g mod 10) / 10, Suc g)),
      np_randint = (\<lambda>g lo hi. (lo + int (g mod nat (hi - lo)), Suc g))\<rparr>"

lemma length_synth_loop: "length (fst (synth_loop R corp is g)) = length is"
  by (induction "is" arbitrary: g) (simp_all add: split_beta Let_def)

lemma synthetic_table_rows:
  "fst (synthetic_table R corp w) =
     Inr (fst (synth_loop R corp [0..<(if corp = ''gum'' then 12 else 15)]
       (np_seed R (if corp = ''gum'' then 0 else 1))))"
  by (simp add: synthetic_table_def Let_def split_beta)

lemma load_corpus_features_fallback:
  "no_conllu fs corp \<Longrightarrow>
   load_corpus_features R parse fs corp w = synthetic_table R corp w"
  by (auto simp: no_conllu_def load_corpus_features_def split: option.splits)

text \<open>
  C8. When the directory of the corpus is missing or lists no \<open>.conllu\<close> file,
  \<open>load_corpus_features\<close> returns a table, not an exception. The table has 12 rows for
  \<open>gum\<close> and 15 rows for \<open>ewt\<close> (for any other name as well), so it is not empty, and it is the
  same table on every run: it does not depend on the state of the generator before the
  call, on what was printed, on the rest of the file system or on the parser.
\<close>

theorem load_corpus_features_synthetic:
  assumes "no_conllu fs corp" and "no_conllu fs' corp"
  shows "\<exists>rows. fst (load_corpus_features R parse fs corp w) = Inr rows \<and>
     fst (load_corpus_features R parse' fs' corp w') = Inr rows \<and>
     rows \<noteq> [] \<and>
     length rows = (if corp = ''gum'' then 12 else 15)"
proof -
  let ?rows = "fst (synth_loop R corp [0..<(if corp = ''gum'' then 12 else 15)]
       (np_seed R (if corp = ''gum'' then 0 else 1)))"
  have len: "length ?rows = (if corp = ''gum'' then 12 else 15)"
    by (simp add: length_synth_loop)
  then have ne: "?rows \<noteq> []" by (auto split: if_splits)
  have "fst (load_corpus_features R parse fs corp w) = Inr ?rows"
    by (simp add: load_corpus_features_fallback [OF assms(1)] synthetic_table_rows)
  moreover have "fst (load_corpus_features R parse' fs' corp w') = Inr ?rows"
    by (simp add: load_corpus_features_fallback [OF assms(2)] synthetic_table_rows)
  ultimately show ?thesis using len ne by blast
qed

theorem load_corpus_features_synthetic_witness:
  "no_conllu (\<lambda>d. None) ''gum'' \<and>
   no_conllu (\<lambda>d. Some [''README.md'', ''notes.txt'']) ''gum'' \<and>
   (\<exists>rows. fst (load_corpus_features counter_random (\<lambda>p. Inr []) (\<lambda>d. None) ''gum'' (0, []))
        = Inr rows \<and>
     fst (load_corpus_features counter_random (\<lambda>p. Inl ValueError)
        (\<lambda>d. Some [''README.md'', ''notes.txt'']) ''gum'' (7, [''earlier output''])) = Inr rows \<and>
     rows \<noteq> [] \<and> length rows = 12)"
proof -
  have a: "no_conllu (\<lambda>d. None) ''gum''" by (simp add: no_conllu_def)
  have b: "no_conllu (\<lambda>d. Some [''README.md'', ''notes.txt'']) ''gum''"
    by (simp add: no_conllu_def endswith_def)
  from load_corpus_features_synthetic [OF a b, of counter_random "\<lambda>p. Inr []" "(0, [])"
      "\<lambda>p. Inl ValueError" "(7, [''earlier output''])"] a b
  show ?thesis by simp
qed

end
